theory Spec2Isabelle
  imports Complex_Main "HOL-Library.Word" "HOL-Library.Code_Target_Numeral"
begin

section \<open>Floating-point scalars\<close>

text \<open>
  The payload type \<open>T\<close> of \<open>angle_unit<T, Tag>\<close> is constrained by
  \<open>std::floating_point<T>\<close>; the library is used at \<open>float\<close> and \<open>double\<close>
  (\<open>degrees_f\<close>, \<open>degrees_d\<close>, \<open>radians_f\<close>, \<open>radians_d\<close>). A payload is
  modelled by its bit pattern, a machine word of 32 or 64 bits in the IEEE 754 binary32
  or binary64 interchange format: one sign bit, \<open>expw\<close> bits of biased exponent and
  \<open>fracw\<close> bits of fraction. The built-in operators \<open>+ - * /\<close> and the built-in
  comparisons are the IEEE 754 operations with the default rounding (to nearest, ties
  to even). IEEE 754 leaves open which NaN an operation returns; the model returns the
  positive quiet NaN with an empty payload.
\<close>

type_synonym float = "32 word"
type_synonym double = "64 word"

record format =
  expw :: nat
  fracw :: nat

definition binary32 :: format where
  "binary32 = \<lparr>expw = 8, fracw = 23\<rparr>"

definition binary64 :: format where
  "binary64 = \<lparr>expw = 11, fracw = 52\<rparr>"

definition format_of :: "'a::len itself \<Rightarrow> format" where
  "format_of _ = (if LENGTH('a) = 32 then binary32 else binary64)"

text \<open>A format has at least one exponent bit and one fraction bit.\<close>

definition wf_format :: "format \<Rightarrow> bool" where
  "wf_format F = (1 \<le> expw F \<and> 1 \<le> fracw F)"

text \<open>
  A decoded datum: a NaN, an infinity with its sign, or the finite number
  \<open>(-1)\<^sup>s * m * 2\<^sup>e\<close> written \<open>Finite s m e\<close>.
\<close>

datatype fp = NaN | Infinity bool | Finite bool nat int

definition bias :: "format \<Rightarrow> nat" where
  "bias F = 2 ^ (expw F - 1) - 1"

text \<open>The exponent of the last fraction bit of a subnormal number.\<close>

definition emin_q :: "format \<Rightarrow> int" where
  "emin_q F = 1 - int (bias F) - int (fracw F)"

definition decode :: "format \<Rightarrow> nat \<Rightarrow> fp" where
  "decode F w =
     (let s = odd (w div 2 ^ (expw F + fracw F));
          be = (w div 2 ^ fracw F) mod 2 ^ expw F;
          f = w mod 2 ^ fracw F
      in if be = 2 ^ expw F - 1 then (if f = 0 then Infinity s else NaN)
         else if be = 0 then Finite s f (emin_q F)
         else Finite s (2 ^ fracw F + f) (int be - 1 + emin_q F))"

definition sign_bits :: "format \<Rightarrow> bool \<Rightarrow> nat" where
  "sign_bits F s = (if s then 2 ^ (expw F + fracw F) else 0)"

definition inf_bits :: "format \<Rightarrow> nat" where
  "inf_bits F = (2 ^ expw F - 1) * 2 ^ fracw F"

definition nan_bits :: "format \<Rightarrow> nat" where
  "nan_bits F = inf_bits F + 2 ^ (fracw F - 1)"

fun bit_length :: "nat \<Rightarrow> nat" where
  "bit_length n = (if n = 0 then 0 else Suc (bit_length (n div 2)))"

declare bit_length.simps [simp del]

text \<open>\<open>rne num den\<close> is the integer nearest to \<open>num / den\<close>, a tie going to the even one.\<close>

definition rne :: "nat \<Rightarrow> nat \<Rightarrow> nat" where
  "rne num den =
     (let q = num div den; r = num mod den
      in if 2 * r < den then q
         else if den < 2 * r then q + 1
         else if even q then q else q + 1)"

text \<open>\<open>ilog2 N D\<close> is the integer \<open>L\<close> with \<open>2\<^sup>L \<le> N / D < 2\<^sup>L\<^sup>+\<^sup>1\<close>, for positive \<open>N\<close> and \<open>D\<close>.\<close>

definition ilog2 :: "nat \<Rightarrow> nat \<Rightarrow> int" where
  "ilog2 N D = int (bit_length (N * 2 ^ bit_length D div D)) - 1 - int (bit_length D)"

text \<open>
  Rounding the positive number \<open>N / D * 2\<^sup>E\<close> to the format: the result is the bit
  pattern of the magnitude. The quantum exponent \<open>qe\<close> is that of the binade of the
  number, or of the subnormals when the number is below the normal range; the
  significand is rounded to an integer multiple of the quantum; a carry out of the
  significand moves to the next binade because exponent and fraction are adjacent
  fields; a result beyond the largest finite number is the infinity.
\<close>

definition round_mag :: "format \<Rightarrow> nat \<Rightarrow> nat \<Rightarrow> int \<Rightarrow> nat" where
  "round_mag F N D E =
     (let qe = max (ilog2 N D + E - int (fracw F)) (emin_q F);
          n = (if qe \<le> E then rne (N * 2 ^ nat (E - qe)) D else rne N (D * 2 ^ nat (qe - E)))
      in min (nat (qe - emin_q F) * 2 ^ fracw F + n) (inf_bits F))"

definition round_fp :: "format \<Rightarrow> bool \<Rightarrow> nat \<Rightarrow> nat \<Rightarrow> int \<Rightarrow> nat" where
  "round_fp F s N D E = sign_bits F s + (if N = 0 then 0 else round_mag F N D E)"

definition signed :: "bool \<Rightarrow> nat \<Rightarrow> int" where
  "signed s n = (if s then - int n else int n)"

definition mul_bits :: "format \<Rightarrow> nat \<Rightarrow> nat \<Rightarrow> nat" where
  "mul_bits F a b =
     (case (decode F a, decode F b) of
        (NaN, _) \<Rightarrow> nan_bits F
      | (_, NaN) \<Rightarrow> nan_bits F
      | (Infinity s1, Infinity s2) \<Rightarrow> sign_bits F (s1 \<noteq> s2) + inf_bits F
      | (Infinity s1, Finite s2 m2 e2) \<Rightarrow>
          (if m2 = 0 then nan_bits F else sign_bits F (s1 \<noteq> s2) + inf_bits F)
      | (Finite s1 m1 e1, Infinity s2) \<Rightarrow>
          (if m1 = 0 then nan_bits F else sign_bits F (s1 \<noteq> s2) + inf_bits F)
      | (Finite s1 m1 e1, Finite s2 m2 e2) \<Rightarrow>
          round_fp F (s1 \<noteq> s2) (m1 * m2) 1 (e1 + e2))"

definition div_bits :: "format \<Rightarrow> nat \<Rightarrow> nat \<Rightarrow> nat" where
  "div_bits F a b =
     (case (decode F a, decode F b) of
        (NaN, _) \<Rightarrow> nan_bits F
      | (_, NaN) \<Rightarrow> nan_bits F
      | (Infinity s1, Infinity s2) \<Rightarrow> nan_bits F
      | (Infinity s1, Finite s2 m2 e2) \<Rightarrow> sign_bits F (s1 \<noteq> s2) + inf_bits F
      | (Finite s1 m1 e1, Infinity s2) \<Rightarrow> sign_bits F (s1 \<noteq> s2)
      | (Finite s1 m1 e1, Finite s2 m2 e2) \<Rightarrow>
          (if m2 = 0
           then (if m1 = 0 then nan_bits F else sign_bits F (s1 \<noteq> s2) + inf_bits F)
           else round_fp F (s1 \<noteq> s2) m1 m2 (e1 - e2)))"

text \<open>
  An exact sum that is zero is \<open>+0\<close> unless both operands are \<open>-0\<close> (or the like
  signed zero for operands of one sign).
\<close>

definition add_bits :: "format \<Rightarrow> nat \<Rightarrow> nat \<Rightarrow> nat" where
  "add_bits F a b =
     (case (decode F a, decode F b) of
        (NaN, _) \<Rightarrow> nan_bits F
      | (_, NaN) \<Rightarrow> nan_bits F
      | (Infinity s1, Infinity s2) \<Rightarrow>
          (if s1 = s2 then sign_bits F s1 + inf_bits F else nan_bits F)
      | (Infinity s1, Finite s2 m2 e2) \<Rightarrow> sign_bits F s1 + inf_bits F
      | (Finite s1 m1 e1, Infinity s2) \<Rightarrow> sign_bits F s2 + inf_bits F
      | (Finite s1 m1 e1, Finite s2 m2 e2) \<Rightarrow>
          (let E = min e1 e2;
               v = signed s1 (m1 * 2 ^ nat (e1 - E)) + signed s2 (m2 * 2 ^ nat (e2 - E))
           in if v = 0 then sign_bits F (s1 \<and> s2)
              else round_fp F (v < 0) (nat \<bar>v\<bar>) 1 E))"

definition neg_bits :: "format \<Rightarrow> nat \<Rightarrow> nat" where
  "neg_bits F w =
     (if odd (w div 2 ^ (expw F + fracw F)) then w - 2 ^ (expw F + fracw F)
      else w + 2 ^ (expw F + fracw F))"

definition sub_bits :: "format \<Rightarrow> nat \<Rightarrow> nat \<Rightarrow> nat" where
  "sub_bits F a b = add_bits F a (neg_bits F b)"

fun lt_fp :: "fp \<Rightarrow> fp \<Rightarrow> bool" where
  "lt_fp NaN _ = False"
| "lt_fp _ NaN = False"
| "lt_fp (Infinity s1) (Infinity s2) = (s1 \<and> \<not> s2)"
| "lt_fp (Infinity s1) (Finite s2 m2 e2) = s1"
| "lt_fp (Finite s1 m1 e1) (Infinity s2) = (\<not> s2)"
| "lt_fp (Finite s1 m1 e1) (Finite s2 m2 e2) =
     (signed s1 (m1 * 2 ^ nat (e1 - min e1 e2)) < signed s2 (m2 * 2 ^ nat (e2 - min e1 e2)))"

fun eq_fp :: "fp \<Rightarrow> fp \<Rightarrow> bool" where
  "eq_fp NaN _ = False"
| "eq_fp _ NaN = False"
| "eq_fp (Infinity s1) (Infinity s2) = (s1 = s2)"
| "eq_fp (Infinity s1) (Finite s2 m2 e2) = False"
| "eq_fp (Finite s1 m1 e1) (Infinity s2) = False"
| "eq_fp (Finite s1 m1 e1) (Finite s2 m2 e2) =
     (signed s1 (m1 * 2 ^ nat (e1 - min e1 e2)) = signed s2 (m2 * 2 ^ nat (e2 - min e1 e2)))"

text \<open>The operations on the scalar type \<open>T\<close>.\<close>

definition fadd :: "'a::len word \<Rightarrow> 'a word \<Rightarrow> 'a word" where
  "fadd x y = of_nat (add_bits (format_of TYPE('a)) (unat x) (unat y))"

definition fsub :: "'a::len word \<Rightarrow> 'a word \<Rightarrow> 'a word" where
  "fsub x y = of_nat (sub_bits (format_of TYPE('a)) (unat x) (unat y))"

definition fmul :: "'a::len word \<Rightarrow> 'a word \<Rightarrow> 'a word" where
  "fmul x y = of_nat (mul_bits (format_of TYPE('a)) (unat x) (unat y))"

definition fdiv :: "'a::len word \<Rightarrow> 'a word \<Rightarrow> 'a word" where
  "fdiv x y = of_nat (div_bits (format_of TYPE('a)) (unat x) (unat y))"

definition fneg :: "'a::len word \<Rightarrow> 'a word" where
  "fneg x = of_nat (neg_bits (format_of TYPE('a)) (unat x))"

definition flt :: "'a::len word \<Rightarrow> 'a word \<Rightarrow> bool" where
  "flt x y = lt_fp (decode (format_of TYPE('a)) (unat x)) (decode (format_of TYPE('a)) (unat y))"

definition feq :: "'a::len word \<Rightarrow> 'a word \<Rightarrow> bool" where
  "feq x y = eq_fp (decode (format_of TYPE('a)) (unat x)) (decode (format_of TYPE('a)) (unat y))"

text \<open>
  The built-in three-way comparison of two floating-point values has the type
  \<open>std::partial_ordering\<close>: \<open>less\<close> when \<open>x < y\<close>, \<open>greater\<close> when \<open>y < x\<close>,
  \<open>equivalent\<close> when \<open>x == y\<close>, and \<open>unordered\<close> otherwise (an operand is a NaN).
  Comparing a \<open>partial_ordering\<close> with the literal \<open>0\<close> by \<open><\<close> asks whether it is
  \<open>less\<close> (\<open>std::is_lt\<close>).
\<close>

datatype partial_ordering = less | equivalent | greater | unordered

definition fcompare :: "'a::len word \<Rightarrow> 'a word \<Rightarrow> partial_ordering" where
  "fcompare x y =
     (if flt x y then less else if flt y x then greater
      else if feq x y then equivalent else unordered)"

definition is_lt :: "partial_ordering \<Rightarrow> bool" where
  "is_lt c = (c = less)"

text \<open>\<open>T(n)\<close> for a small literal \<open>n\<close>, and \<open>std::numbers::pi_v<T>\<close>: \<open>\<pi>\<close> rounded to \<open>T\<close>.\<close>

definition scalar_of_nat :: "nat \<Rightarrow> 'a::len word" where
  "scalar_of_nat n = of_nat (round_fp (format_of TYPE('a)) False n 1 0)"

definition pi_v :: "'a::len word" where
  "pi_v = (if LENGTH('a) = 32 then 0x40490FDB else 0x400921FB54442D18)"

text \<open>The real number a finite datum stands for, for stating tolerances.\<close>

fun is_finite_fp :: "fp \<Rightarrow> bool" where
  "is_finite_fp (Finite s m e) = True"
| "is_finite_fp _ = False"

fun valof_fp :: "fp \<Rightarrow> real" where
  "valof_fp (Finite s m e) = (if s then - 1 else 1) * real m * 2 powr real_of_int e"
| "valof_fp _ = 0"

definition is_finite :: "'a::len word \<Rightarrow> bool" where
  "is_finite x = is_finite_fp (decode (format_of TYPE('a)) (unat x))"

definition valof :: "'a::len word \<Rightarrow> real" where
  "valof x = valof_fp (decode (format_of TYPE('a)) (unat x))"

section \<open>The tagged angle value\<close>

text \<open>
  \<open>angle_unit<T, Tag>\<close> holds one private field \<open>val_\<close> of type \<open>T\<close> (the selector \<open>val\<close>); the tag is a
  type that is declared and never defined (\<open>struct degrees_tag\<close>, \<open>struct radians_tag\<close>)
  and takes part in the type only. Two values of different tags, or of different
  payload types, have different HOL types too, so an application of an operator to
  operands of different units is no term of the model, as it is no expression of a
  program that compiles.
\<close>

typedecl degrees_tag
typedecl radians_tag

datatype ('a, 'tag) angle_unit = angle_unit (val: 'a)

type_synonym 'a degrees = "('a, degrees_tag) angle_unit"
type_synonym 'a radians = "('a, radians_tag) angle_unit"

definition angle_value :: "('a, 'tag) angle_unit \<Rightarrow> 'a" where
  "angle_value a = val a"

definition operator_spaceship ::
    "('a::len word, 'tag) angle_unit \<Rightarrow> ('a word, 'tag) angle_unit \<Rightarrow> partial_ordering" where
  "operator_spaceship a b = fcompare (val a) (val b)"

text \<open>
  The class declares no \<open>operator<\<close>: the expression \<open>a < b\<close> on two angle values is
  the rewritten candidate \<open>(a <=> b) < 0\<close>.
\<close>

definition operator_less ::
    "('a::len word, 'tag) angle_unit \<Rightarrow> ('a word, 'tag) angle_unit \<Rightarrow> bool" where
  "operator_less a b = is_lt (operator_spaceship a b)"

definition operator_negate :: "('a::len word, 'tag) angle_unit \<Rightarrow> ('a word, 'tag) angle_unit" where
  "operator_negate a = angle_unit (fneg (val a))"

definition operator_identity :: "('a::len word, 'tag) angle_unit \<Rightarrow> ('a word, 'tag) angle_unit" where
  "operator_identity a = a"

definition operator_plus ::
    "('a::len word, 'tag) angle_unit \<Rightarrow> ('a word, 'tag) angle_unit \<Rightarrow> ('a word, 'tag) angle_unit" where
  "operator_plus a b = angle_unit (fadd (val a) (val b))"

definition operator_minus ::
    "('a::len word, 'tag) angle_unit \<Rightarrow> ('a word, 'tag) angle_unit \<Rightarrow> ('a word, 'tag) angle_unit" where
  "operator_minus a b = angle_unit (fsub (val a) (val b))"

definition operator_times ::
    "('a::len word, 'tag) angle_unit \<Rightarrow> 'a word \<Rightarrow> ('a word, 'tag) angle_unit" where
  "operator_times a t = angle_unit (fmul (val a) t)"

definition operator_times_scalar_first ::
    "'a::len word \<Rightarrow> ('a word, 'tag) angle_unit \<Rightarrow> ('a word, 'tag) angle_unit" where
  "operator_times_scalar_first t a = angle_unit (fmul t (val a))"

definition operator_divide ::
    "('a::len word, 'tag) angle_unit \<Rightarrow> 'a word \<Rightarrow> ('a word, 'tag) angle_unit" where
  "operator_divide a t = angle_unit (fdiv (val a) t)"

text \<open>
  The compound operators are member functions: they write the field of the object
  \<open>this\<close> points to and return \<open>*this\<close> by reference. Objects live in a memory, a map
  from addresses to values; the right operand is passed by value. A compound operator
  takes the address of its receiver and returns the address its result refers to,
  with the memory after the call. A receiver that is no live object has no defined
  behaviour: the result is \<open>None\<close>.
\<close>

type_synonym address = nat
type_synonym ('a, 'tag) memory = "address \<rightharpoonup> ('a, 'tag) angle_unit"

definition operator_plus_assign ::
    "address \<Rightarrow> ('a::len word, 'tag) angle_unit \<Rightarrow> ('a word, 'tag) memory
      \<Rightarrow> (address \<times> ('a word, 'tag) memory) option" where
  "operator_plus_assign this a M =
     (case M this of
        None \<Rightarrow> None
      | Some obj \<Rightarrow> Some (this, M(this \<mapsto> angle_unit (fadd (val obj) (val a)))))"

definition operator_minus_assign ::
    "address \<Rightarrow> ('a::len word, 'tag) angle_unit \<Rightarrow> ('a word, 'tag) memory
      \<Rightarrow> (address \<times> ('a word, 'tag) memory) option" where
  "operator_minus_assign this a M =
     (case M this of
        None \<Rightarrow> None
      | Some obj \<Rightarrow> Some (this, M(this \<mapsto> angle_unit (fsub (val obj) (val a)))))"

definition operator_times_assign ::
    "address \<Rightarrow> 'a::len word \<Rightarrow> ('a word, 'tag) memory
      \<Rightarrow> (address \<times> ('a word, 'tag) memory) option" where
  "operator_times_assign this t M =
     (case M this of
        None \<Rightarrow> None
      | Some obj \<Rightarrow> Some (this, M(this \<mapsto> angle_unit (fmul (val obj) t))))"

definition operator_divide_assign ::
    "address \<Rightarrow> 'a::len word \<Rightarrow> ('a word, 'tag) memory
      \<Rightarrow> (address \<times> ('a word, 'tag) memory) option" where
  "operator_divide_assign this t M =
     (case M this of
        None \<Rightarrow> None
      | Some obj \<Rightarrow> Some (this, M(this \<mapsto> angle_unit (fdiv (val obj) t))))"

section \<open>Conversion dispatch\<close>

subsection \<open>The conversion factors and the functions named \<open>angle_cast\<close>\<close>

text \<open>
  The factors are \<open>consteval\<close> functions: the quotient is computed by the compiler, in
  the arithmetic of \<open>T\<close>.
\<close>

definition degrees_to_radians_factor :: "'a::len word" where
  "degrees_to_radians_factor = fdiv pi_v (scalar_of_nat 180)"

definition radians_to_degrees_factor :: "'a::len word" where
  "radians_to_degrees_factor = fdiv (scalar_of_nat 180) pi_v"

text \<open>
  Four function templates share the name \<open>angle_cast\<close>. The first (lines 116 to 122)
  has no body but a \<open>static_assert\<close> that fails whenever the template is instantiated:
  it computes nothing. The other three are the identity cast (lines 126 to 129) and
  the two authored conversions (lines 133 to 141).
\<close>

definition angle_cast_identity :: "('a, 'tag) angle_unit \<Rightarrow> ('a, 'tag) angle_unit" where
  "angle_cast_identity t = t"

definition angle_cast_degrees_to_radians :: "'a::len word degrees \<Rightarrow> 'a word radians" where
  "angle_cast_degrees_to_radians t = angle_unit (fmul (angle_value t) degrees_to_radians_factor)"

definition angle_cast_radians_to_degrees :: "'a::len word radians \<Rightarrow> 'a word degrees" where
  "angle_cast_radians_to_degrees t = angle_unit (fmul (angle_value t) radians_to_degrees_factor)"

subsection \<open>Which \<open>angle_cast\<close> a call selects\<close>

text \<open>
  Which of the four templates a call \<open>angle_cast<X>(u)\<close> or \<open>angle_cast(u)\<close> runs is
  settled by the compiler from the types alone. Types are described by values here:
  a scalar type, or \<open>angle_unit<T, Tag>\<close>.
\<close>

datatype scalar_t = float_t | double_t

datatype tag_t = degrees_tag_t | radians_tag_t

datatype type_t = floating scalar_t | angle_unit_t scalar_t tag_t

datatype overload =
  unimplemented_cast | identity_cast | degrees_to_radians_cast | radians_to_degrees_cast

datatype diagnostic = no_matching_function | ambiguous_call | static_assert_failed string

text \<open>The trait \<open>is_angle_unit_v\<close> (the concept \<open>AngleUnit\<close>) and \<open>angle_underlying_t\<close>.\<close>

fun is_angle_unit :: "type_t \<Rightarrow> bool" where
  "is_angle_unit (angle_unit_t T Tag) = True"
| "is_angle_unit (floating T) = False"

fun angle_underlying_t :: "type_t \<Rightarrow> scalar_t" where
  "angle_underlying_t (angle_unit_t T Tag) = T"
| "angle_underlying_t (floating T) = T"

text \<open>
  \<open>viable f X U\<close>: the template \<open>f\<close> is a candidate of the call whose explicit template
  argument is \<open>X\<close> (\<open>None\<close> when the call names none) and whose argument has the type
  \<open>U\<close>. An explicit template argument stands for the first template parameter of
  each template.
  \<^item> Lines 116 to 122, \<open>template<AngleUnit T, AngleUnit U> T angle_cast(U u)\<close>: \<open>T\<close>
    appears in the return type only and cannot be deduced, so it must be named; \<open>U\<close>
    is deduced from the argument; the requires-clause wants \<open>T\<close> and \<open>U\<close> to differ
    and to have the same underlying type.
  \<^item> Lines 126 to 129, \<open>template<AngleUnit T> T angle_cast(T t)\<close>: \<open>T\<close> is deduced from
    the argument, or named; when a named \<open>T\<close> is not the type of the argument, the
    argument would have to convert to \<open>T\<close> implicitly, and no angle type converts to
    another (the only constructor is explicit and takes a scalar).
  \<^item> Lines 133 to 136, \<open>template<typename T> radians<T> angle_cast(degrees<T> t)\<close>:
    the template parameter is the scalar type. It is deduced from an argument of
    type \<open>degrees<S>\<close>, or named; a named \<open>T\<close> other than \<open>S\<close> makes the parameter
    \<open>degrees<T>\<close> a type the argument does not convert to (and no type at all when
    \<open>T\<close> is no floating-point type). Lines 138 to 141 likewise.
\<close>

fun viable :: "overload \<Rightarrow> type_t option \<Rightarrow> type_t \<Rightarrow> bool" where
  "viable unimplemented_cast X U =
     (case X of
        None \<Rightarrow> False
      | Some T \<Rightarrow> is_angle_unit T \<and> is_angle_unit U \<and> T \<noteq> U
          \<and> angle_underlying_t T = angle_underlying_t U)"
| "viable identity_cast X U =
     (is_angle_unit U \<and> (case X of None \<Rightarrow> True | Some T \<Rightarrow> T = U))"
| "viable degrees_to_radians_cast X U =
     (case U of
        floating S \<Rightarrow> False
      | angle_unit_t S Tag \<Rightarrow>
          Tag = degrees_tag_t \<and> (case X of None \<Rightarrow> True | Some T \<Rightarrow> T = floating S))"
| "viable radians_to_degrees_cast X U =
     (case U of
        floating S \<Rightarrow> False
      | angle_unit_t S Tag \<Rightarrow>
          Tag = radians_tag_t \<and> (case X of None \<Rightarrow> True | Some T \<Rightarrow> T = floating S))"

text \<open>
  Among viable candidates of equal conversions the more specialized template wins:
  the parameter \<open>angle_unit<T, degrees_tag>\<close> of an authored conversion is an instance
  of the parameter \<open>T\<close> of the identity cast, and not the other way round.
\<close>

definition more_specialized :: "overload \<Rightarrow> overload \<Rightarrow> bool" where
  "more_specialized f g =
     (g = identity_cast \<and> (f = degrees_to_radians_cast \<or> f = radians_to_degrees_cast))"

definition angle_cast_overloads :: "overload list" where
  "angle_cast_overloads =
     [unimplemented_cast, identity_cast, degrees_to_radians_cast, radians_to_degrees_cast]"

definition resolve :: "type_t option \<Rightarrow> type_t \<Rightarrow> diagnostic + overload" where
  "resolve X U =
     (let cs = filter (\<lambda>f. viable f X U) angle_cast_overloads;
          best = filter (\<lambda>f. list_all (\<lambda>g. g = f \<or> more_specialized f g) cs) cs
      in case best of
           [f] \<Rightarrow> Inr f
         | _ \<Rightarrow> if cs = [] then Inl no_matching_function else Inl ambiguous_call)"

text \<open>
  Compiling the call: the selected template is instantiated, and instantiating the
  template of lines 116 to 122 fails its \<open>static_assert\<close>.
\<close>

definition angle_cast_call :: "type_t option \<Rightarrow> type_t \<Rightarrow> diagnostic + overload" where
  "angle_cast_call X U =
     (case resolve X U of
        Inl d \<Rightarrow> Inl d
      | Inr f \<Rightarrow>
          if f = unimplemented_cast
          then Inl (static_assert_failed ''implement conversion from U to T'')
          else Inr f)"

text \<open>The type a selected template returns for an argument of type \<open>U\<close>.\<close>

fun return_type :: "overload \<Rightarrow> type_t \<Rightarrow> type_t" where
  "return_type degrees_to_radians_cast U = angle_unit_t (angle_underlying_t U) radians_tag_t"
| "return_type radians_to_degrees_cast U = angle_unit_t (angle_underlying_t U) degrees_tag_t"
| "return_type f U = U"

section \<open>The angle functions\<close>

text \<open>
  \<open>sin\<close>, \<open>cos\<close> and \<open>tan\<close> are templates over \<open>T\<close> and \<open>Tag\<close> whose body is
  \<open>std::sin(angle_cast<radians<T>>(angle).value())\<close>. The call of \<open>angle_cast\<close> in the
  body names the template argument \<open>radians<T>\<close> and has an argument of type
  \<open>angle_unit<T, Tag>\<close>; it is resolved when the template is instantiated.
\<close>

definition trig_angle_cast :: "scalar_t \<Rightarrow> tag_t \<Rightarrow> diagnostic + overload" where
  "trig_angle_cast T Tag =
     angle_cast_call (Some (angle_unit_t T radians_tag_t)) (angle_unit_t T Tag)"

text \<open>
  At \<open>Tag = radians_tag\<close> the call is the identity cast (lemma \<open>trig_angle_cast_radians\<close>
  below), and the instantiations are the following functions. The functions of
  \<open><cmath>\<close> are parameters: their values are those of the platform's mathematical
  library.
\<close>

definition sin_angle :: "('a \<Rightarrow> 'a) \<Rightarrow> 'a radians \<Rightarrow> 'a" where
  "sin_angle std_sin angle = std_sin (angle_value (angle_cast_identity angle))"

definition cos_angle :: "('a \<Rightarrow> 'a) \<Rightarrow> 'a radians \<Rightarrow> 'a" where
  "cos_angle std_cos angle = std_cos (angle_value (angle_cast_identity angle))"

definition tan_angle :: "('a \<Rightarrow> 'a) \<Rightarrow> 'a radians \<Rightarrow> 'a" where
  "tan_angle std_tan angle = std_tan (angle_value (angle_cast_identity angle))"

definition asin :: "('a \<Rightarrow> 'a) \<Rightarrow> 'a \<Rightarrow> 'a radians" where
  "asin std_asin x = angle_unit (std_asin x)"

definition acos :: "('a \<Rightarrow> 'a) \<Rightarrow> 'a \<Rightarrow> 'a radians" where
  "acos std_acos x = angle_unit (std_acos x)"

definition atan :: "('a \<Rightarrow> 'a) \<Rightarrow> 'a \<Rightarrow> 'a radians" where
  "atan std_atan x = angle_unit (std_atan x)"

definition atan2 :: "('a \<Rightarrow> 'a \<Rightarrow> 'a) \<Rightarrow> 'a \<Rightarrow> 'a \<Rightarrow> 'a radians" where
  "atan2 std_atan2 y x = angle_unit (std_atan2 y x)"

section \<open>Formatting\<close>

text \<open>
  The two specializations of \<open>std::formatter\<close> write \<open>std::format_to(ctx.out(), "{}rd",
  angle.value())\<close> and the like: the scalar as the standard formatter of \<open>T\<close> renders
  it for \<open>{}\<close> (the parameter \<open>fmt\<close>), followed by the rest of the format string. The
  format string of the degrees formatter holds, after \<open>{}\<close>, the four bytes C3 82 C2 B0.
\<close>

definition format_radians :: "('a \<Rightarrow> string) \<Rightarrow> 'a radians \<Rightarrow> string" where
  "format_radians fmt angle = fmt (angle_value angle) @ ''rd''"

definition format_degrees :: "('a \<Rightarrow> string) \<Rightarrow> 'a degrees \<Rightarrow> string" where
  "format_degrees fmt angle =
     fmt (angle_value angle) @ [CHR 0xC3, CHR 0x82, CHR 0xC2, CHR 0xB0]"

section \<open>Arithmetic closure\<close>

text \<open>
  C6. For two values \<open>a\<close> and \<open>b\<close> of one tagged type, of any tag, and a scalar
  \<open>k\<close> of the payload type: \<open>a + b\<close> has the payload \<open>a.value() + b.value()\<close>,
  \<open>a - b\<close> the payload \<open>a.value() - b.value()\<close>, \<open>a * k\<close> and \<open>k * a\<close> the payload
  \<open>a.value() * k\<close>, and \<open>a / k\<close> the payload \<open>a.value() / k\<close>; the result has the
  type of \<open>a\<close>.
\<close>

lemma decode_cases:
  obtains "decode F w = NaN" | s where "decode F w = Infinity s"
  | s m e where "decode F w = Finite s m e"
  by (cases "decode F w") auto

lemma mul_bits_commute: "mul_bits F a b = mul_bits F b a"
proof -
  have neq: "\<And>p q::bool. (p = (\<not> q)) = (q = (\<not> p))" by auto
  show ?thesis
    unfolding mul_bits_def
    by (cases "decode F a"; cases "decode F b")
       (simp_all add: mult.commute add.commute neq)
qed

lemma fmul_commute: "fmul x y = fmul y x"
  by (simp add: fmul_def mul_bits_commute)

theorem arithmetic_payloads:
  fixes a b :: "('a::len word, 'tag) angle_unit" and k :: "'a word"
  shows "angle_value (operator_plus a b) = fadd (angle_value a) (angle_value b)
       \<and> angle_value (operator_minus a b) = fsub (angle_value a) (angle_value b)
       \<and> angle_value (operator_times a k) = fmul (angle_value a) k
       \<and> angle_value (operator_times_scalar_first k a) = fmul (angle_value a) k
       \<and> angle_value (operator_divide a k) = fdiv (angle_value a) k"
  by (simp add: angle_value_def operator_plus_def operator_minus_def operator_times_def
      operator_times_scalar_first_def operator_divide_def fmul_commute)

section \<open>Conversion formulas\<close>

text \<open>
  C1. For every payload \<open>x\<close> of precision \<open>T\<close>, the conversion of \<open>degrees<T>(x)\<close>
  (lines 133 to 136) returns a \<open>radians<T>\<close> whose payload is \<open>x\<close> times the constant
  \<open>pi_v<T> / T(180)\<close> computed in \<open>T\<close>, and the conversion of \<open>radians<T>(x)\<close> (lines
  138 to 141) returns a \<open>degrees<T>\<close> whose payload is \<open>x\<close> times \<open>T(180) / pi_v<T>\<close>
  computed in \<open>T\<close>. The result types are those of the two functions.
\<close>

theorem conversion_formulas:
  fixes x :: "'a::len word"
  shows "angle_value (angle_cast_degrees_to_radians (angle_unit x))
           = fmul x (fdiv pi_v (scalar_of_nat 180))
       \<and> angle_value (angle_cast_radians_to_degrees (angle_unit x))
           = fmul x (fdiv (scalar_of_nat 180) pi_v)"
  by (simp add: angle_cast_degrees_to_radians_def angle_cast_radians_to_degrees_def
      degrees_to_radians_factor_def radians_to_degrees_factor_def angle_value_def)

text \<open>The constants at the two precisions, as bit patterns.\<close>

lemma factors_float:
  "(degrees_to_radians_factor :: float) = 0x3C8EFA35"
  "(radians_to_degrees_factor :: float) = 0x42652EE0"
  by code_simp+

lemma factors_double:
  "(degrees_to_radians_factor :: double) = 0x3F91DF46A2529D39"
  "(radians_to_degrees_factor :: double) = 0x404CA5DC1A63C1F8"
  by code_simp+

text \<open>
  A call that names no template argument, or names the scalar type, runs the authored
  conversion of the argument's unit.
\<close>

lemma angle_cast_call_deduced:
  "angle_cast_call None (angle_unit_t T degrees_tag_t) = Inr degrees_to_radians_cast"
  "angle_cast_call None (angle_unit_t T radians_tag_t) = Inr radians_to_degrees_cast"
  "angle_cast_call (Some (floating T)) (angle_unit_t T degrees_tag_t) = Inr degrees_to_radians_cast"
  "angle_cast_call (Some (floating T)) (angle_unit_t T radians_tag_t) = Inr radians_to_degrees_cast"
  by (simp_all add: angle_cast_call_def resolve_def angle_cast_overloads_def more_specialized_def)

section \<open>Identity conversion\<close>

text \<open>
  C4. For every tagged value, of any tag and precision and any payload, the call
  \<open>angle_cast<T>(t)\<close> that names the value's own type \<open>T\<close> selects the identity cast,
  the only viable template for it, and the result is the argument: its payload has
  the bits of the argument's payload.
\<close>

theorem identity_conversion:
  "angle_cast_call (Some (angle_unit_t T Tag)) (angle_unit_t T Tag) = Inr identity_cast
   \<and> filter (\<lambda>f. viable f (Some (angle_unit_t T Tag)) (angle_unit_t T Tag)) angle_cast_overloads
       = [identity_cast]
   \<and> angle_cast_identity t = t
   \<and> angle_value (angle_cast_identity t) = angle_value t"
  by (simp add: angle_cast_call_def resolve_def angle_cast_overloads_def more_specialized_def
      angle_cast_identity_def)

section \<open>Ordering\<close>

text \<open>
  C7. For two values \<open>a\<close> and \<open>b\<close> of one tagged type, \<open>a < b\<close> holds exactly when
  \<open>a.value() < b.value()\<close> holds, and \<open>a <=> b\<close> is the three-way comparison of the
  payloads, \<open>unordered\<close> when a payload is a NaN.
\<close>

lemma is_lt_fcompare: "is_lt (fcompare x y) = flt x y"
  by (simp add: is_lt_def fcompare_def)

theorem ordering_by_payload:
  fixes a b :: "('a::len word, 'tag) angle_unit"
  shows "operator_less a b = flt (angle_value a) (angle_value b)
       \<and> operator_spaceship a b = fcompare (angle_value a) (angle_value b)"
  by (simp add: operator_less_def operator_spaceship_def angle_value_def is_lt_fcompare)

section \<open>Compound operators\<close>

text \<open>
  C10. In a memory where the receiver \<open>this\<close> holds the value \<open>obj\<close>, each compound
  operator returns the address \<open>this\<close>, and the memory after the call differs from
  the memory before it at \<open>this\<close> only, where it holds the result of the binary
  operator on \<open>obj\<close> and the operand.
\<close>

theorem compound_operators_agree:
  fixes obj a :: "('a::len word, 'tag) angle_unit" and k :: "'a word"
  shows "operator_plus_assign this a (M(this \<mapsto> obj))
           = Some (this, M(this \<mapsto> operator_plus obj a))
       \<and> operator_minus_assign this a (M(this \<mapsto> obj))
           = Some (this, M(this \<mapsto> operator_minus obj a))
       \<and> operator_times_assign this k (M(this \<mapsto> obj))
           = Some (this, M(this \<mapsto> operator_times obj k))
       \<and> operator_divide_assign this k (M(this \<mapsto> obj))
           = Some (this, M(this \<mapsto> operator_divide obj k))"
  by (simp add: operator_plus_assign_def operator_minus_assign_def operator_times_assign_def
      operator_divide_assign_def operator_plus_def operator_minus_def operator_times_def
      operator_divide_def)

section \<open>Inverse trigonometric functions\<close>

text \<open>
  C3. For every scalar input, \<open>asin\<close>, \<open>acos\<close> and \<open>atan\<close> return a value of the type
  \<open>radians<T>\<close> whose payload is what the standard function returns for the input, and
  \<open>atan2(y, x)\<close> one whose payload is what the standard two-argument arctangent
  returns for \<open>(y, x)\<close>, whatever the inputs are: nothing is intercepted.
\<close>

theorem inverse_trig_radians:
  shows "asin std_asin x = (angle_unit (std_asin x) :: 'a radians)
       \<and> acos std_acos x = (angle_unit (std_acos x) :: 'a radians)
       \<and> atan std_atan x = (angle_unit (std_atan x) :: 'a radians)
       \<and> atan2 std_atan2 y x = (angle_unit (std_atan2 y x) :: 'a radians)
       \<and> angle_value (asin std_asin x) = std_asin x
       \<and> angle_value (acos std_acos x) = std_acos x
       \<and> angle_value (atan std_atan x) = std_atan x
       \<and> angle_value (atan2 std_atan2 y x) = std_atan2 y x"
  by (simp add: asin_def acos_def atan_def atan2_def angle_value_def)

section \<open>Trigonometric functions\<close>

lemma trig_angle_cast_radians: "trig_angle_cast T radians_tag_t = Inr identity_cast"
  by (simp add: trig_angle_cast_def angle_cast_call_def resolve_def angle_cast_overloads_def
      more_specialized_def)

lemma trig_radians:
  "sin_angle std_sin (angle_unit x) = std_sin x"
  "cos_angle std_cos (angle_unit x) = std_cos x"
  "tan_angle std_tan (angle_unit x) = std_tan x"
  by (simp_all add: sin_angle_def cos_angle_def tan_angle_def angle_cast_identity_def
      angle_value_def)

text \<open>
  C2. The claim is that \<open>sin\<close>, \<open>cos\<close> and \<open>tan\<close> convert an argument of any unit to
  radians. On an argument in degrees the call \<open>angle_cast<radians<T>>(angle)\<close> of
  their body has one viable candidate, the template of lines 116 to 122: the named
  template argument \<open>radians<T>\<close> stands for the scalar parameter of the authored
  conversion of lines 133 to 136, which is then no candidate. Instantiating the
  selected template fails its \<open>static_assert\<close>: the functions do not compile for an
  argument in degrees.
\<close>

theorem trig_degrees_rejected:
  "trig_angle_cast T degrees_tag_t
     = Inl (static_assert_failed ''implement conversion from U to T'')
   \<and> filter (\<lambda>f. viable f (Some (angle_unit_t T radians_tag_t)) (angle_unit_t T degrees_tag_t))
         angle_cast_overloads = [unimplemented_cast]"
  by (simp add: trig_angle_cast_def angle_cast_call_def resolve_def angle_cast_overloads_def
      more_specialized_def)

section \<open>Unsupported conversions\<close>

text \<open>
  C8, as claimed: a cast between tagged types of different precision is rejected with
  the diagnostic that the conversion must be implemented. It is rejected, but no
  template is viable for it (the requires-clause of lines 117 and 118 wants equal
  underlying types), so the diagnostic is that of a call that matches no function.
\<close>

theorem mismatched_precision_counterexample:
  "angle_cast_call (Some (angle_unit_t double_t radians_tag_t)) (angle_unit_t float_t degrees_tag_t)
     \<noteq> Inl (static_assert_failed ''implement conversion from U to T'')
   \<and> angle_cast_call (Some (angle_unit_t double_t radians_tag_t)) (angle_unit_t float_t degrees_tag_t)
     = Inl no_matching_function"
  by (simp add: angle_cast_call_def resolve_def angle_cast_overloads_def more_specialized_def)

text \<open>
  C8, amended. A call of \<open>angle_cast\<close> whose named target and argument are tagged
  types of different precision is rejected at compile time, as a call that matches
  no function. Every call is settled at compile time: it is rejected, or it runs the
  identity cast or one of the two authored conversions, and the result has the
  precision of the argument; no call is ambiguous, and none runs two conversions in
  a row.
\<close>

theorem unsupported_pairs_rejected:
  "angle_cast_call (Some (angle_unit_t float_t g)) (angle_unit_t double_t h) = Inl no_matching_function
   \<and> angle_cast_call (Some (angle_unit_t double_t g)) (angle_unit_t float_t h) = Inl no_matching_function
   \<and> (case angle_cast_call X U of
         Inl d \<Rightarrow> d \<noteq> ambiguous_call
       | Inr f \<Rightarrow> (f = identity_cast \<or> f = degrees_to_radians_cast \<or> f = radians_to_degrees_cast)
           \<and> is_angle_unit U
           \<and> angle_underlying_t (return_type f U) = angle_underlying_t U)"
proof -
  have a: "angle_cast_call (Some (angle_unit_t float_t g)) (angle_unit_t double_t h)
      = Inl no_matching_function"
    by (simp add: angle_cast_call_def resolve_def angle_cast_overloads_def more_specialized_def)
  have b: "angle_cast_call (Some (angle_unit_t double_t g)) (angle_unit_t float_t h)
      = Inl no_matching_function"
    by (simp add: angle_cast_call_def resolve_def angle_cast_overloads_def more_specialized_def)
  have c: "(case angle_cast_call X U of
         Inl d \<Rightarrow> d \<noteq> ambiguous_call
       | Inr f \<Rightarrow> (f = identity_cast \<or> f = degrees_to_radians_cast \<or> f = radians_to_degrees_cast)
           \<and> is_angle_unit U
           \<and> angle_underlying_t (return_type f U) = angle_underlying_t U)"
  proof (cases U)
    case (floating S)
    then show ?thesis
      by (cases X)
         (simp_all add: angle_cast_call_def resolve_def angle_cast_overloads_def
           more_specialized_def)
  next
    case (angle_unit_t S h')
    show ?thesis
    proof (cases X)
      case None
      with angle_unit_t show ?thesis
        by (cases h')
           (simp_all add: angle_cast_call_def resolve_def angle_cast_overloads_def
             more_specialized_def)
    next
      case (Some T)
      with angle_unit_t show ?thesis
        by (cases T; cases h')
           (auto simp add: angle_cast_call_def resolve_def angle_cast_overloads_def
             more_specialized_def)
    qed
  qed
  from a b c show ?thesis by blast
qed

section \<open>Rendering\<close>

text \<open>
  C9. The radians formatter writes the scalar as the standard formatter renders it,
  followed by \<open>rd\<close>. The degrees formatter writes the scalar followed by the four
  bytes C3 82 C2 B0 of its format string, which are the UTF-8 encoding of the two
  characters U+00C2 and U+00B0; the claimed suffix, the degree sign U+00B0 alone, is
  the two bytes C2 B0.
\<close>

theorem rendering_bytes:
  "format_radians fmt (angle_unit x) = fmt x @ ''rd''
   \<and> format_degrees fmt (angle_unit x) = fmt x @ [CHR 0xC3, CHR 0x82, CHR 0xC2, CHR 0xB0]
   \<and> format_degrees fmt (angle_unit x) \<noteq> fmt x @ [CHR 0xC2, CHR 0xB0]"
  by (simp add: format_radians_def format_degrees_def angle_value_def)

section \<open>Round trip\<close>

subsection \<open>The error of one rounding\<close>

lemma bit_length_bounds: "0 < n \<Longrightarrow> (2::nat) ^ (bit_length n - 1) \<le> n \<and> n < 2 ^ bit_length n"
proof (induction n rule: bit_length.induct)
  case (1 n)
  show ?case
  proof (cases "n div 2 = 0")
    case True
    with 1 have "n = 1" by (cases n) auto
    then show ?thesis by (simp add: bit_length.simps)
  next
    case False
    with 1 have ih: "(2::nat) ^ (bit_length (n div 2) - 1) \<le> n div 2" "n div 2 < 2 ^ bit_length (n div 2)"
      by auto
    have pos: "0 < bit_length (n div 2)" using False by (simp add: bit_length.simps)
    have bl: "bit_length n = Suc (bit_length (n div 2))"
      using 1 by (subst bit_length.simps) simp
    have e1: "(2::nat) ^ (bit_length n - 1) = 2 ^ bit_length (n div 2)"
      using bl by simp
    have e2: "(2::nat) ^ bit_length (n div 2) = 2 * 2 ^ (bit_length (n div 2) - 1)"
      using pos by (cases "bit_length (n div 2)") auto
    have e3: "(2::nat) ^ bit_length n = 2 * 2 ^ bit_length (n div 2)"
      using bl by simp
    have h: "2 * (n div 2) \<le> n" "n \<le> 2 * (n div 2) + 1" by presburger+
    have lo: "(2::nat) ^ (bit_length n - 1) \<le> n"
      unfolding e1 using e2 ih(1) h(1) by linarith
    have hi: "n < 2 ^ bit_length n"
      unfolding e3 using ih(2) h(2) by linarith
    from lo hi show ?thesis by blast
  qed
qed

lemma rne_error:
  assumes "0 < D"
  shows "\<bar>real (rne N D) - real N / real D\<bar> \<le> 1 / 2"
proof -
  define q where "q = N div D"
  define r where "r = N mod D"
  have N: "real N = real q * real D + real r"
    by (metis q_def r_def div_mult_mod_eq of_nat_add of_nat_mult)
  have rD: "r < D" using assms by (simp add: r_def)
  have quot: "real N / real D = real q + real r / real D"
    using assms by (simp add: N field_simps)
  have dpos: "0 < real D" using assms by simp
  show ?thesis
  proof (cases "2 * r < D")
    case True
    then have "rne N D = q" by (simp add: rne_def q_def r_def Let_def)
    moreover have "real r / real D \<le> 1 / 2" using True dpos by (simp add: field_simps)
    moreover have "0 \<le> real r / real D" using dpos by simp
    ultimately show ?thesis using quot by simp
  next
    case False
    show ?thesis
    proof (cases "D < 2 * r")
      case True
      then have "rne N D = q + 1" using False by (simp add: rne_def q_def r_def Let_def)
      moreover have "1 / 2 \<le> real r / real D" using True dpos by (simp add: field_simps)
      moreover have "real r / real D \<le> 1" using rD dpos by (simp add: field_simps)
      ultimately show ?thesis using quot by simp
    next
      case F2: False
      with False have eq: "2 * r = D" by simp
      then have "real D = 2 * real r" by (metis of_nat_mult of_nat_numeral)
      then have half: "real r / real D = 1 / 2" using dpos by simp
      have "rne N D = q \<or> rne N D = q + 1"
        by (simp add: rne_def q_def r_def Let_def)
      then show ?thesis using quot half by auto
    qed
  qed
qed

lemma p2_nat: "2 powr real_of_int (int n) = (2::real) ^ n"
  by (simp add: powr_realpow)

lemma p2_add: "2 powr real_of_int (a + b) = 2 powr real_of_int a * (2::real) powr real_of_int b"
  by (simp add: powr_add)

lemma p2_diff: "2 powr real_of_int (a - b) = 2 powr real_of_int a / (2::real) powr real_of_int b"
  by (simp add: powr_diff)

lemma p2_pos: "0 < (2::real) powr x"
  by simp

lemma ilog2_bounds:
  assumes N: "0 < N" and D: "0 < D"
  shows "2 powr real_of_int (ilog2 N D) \<le> real N / real D"
    and "real N / real D < 2 powr real_of_int (ilog2 N D + 1)"
proof -
  define K where "K = bit_length D"
  define Q where "Q = N * 2 ^ K div D"
  define b where "b = bit_length Q"
  have DK: "D < 2 ^ K" using bit_length_bounds [OF D] by (simp add: K_def)
  have "D \<le> N * 2 ^ K"
  proof -
    have "D \<le> 1 * 2 ^ K" using DK by simp
    also have "\<dots> \<le> N * 2 ^ K" using N by (intro mult_right_mono) auto
    finally show ?thesis .
  qed
  then have Qpos: "0 < Q" using D by (simp add: Q_def div_greater_zero_iff)
  have bb: "2 ^ (b - 1) \<le> Q" "Q < 2 ^ b"
    using bit_length_bounds [OF Qpos] by (simp_all add: b_def)
  have bpos: "0 < b" using bb(2) Qpos by (cases b) auto
  have dpos: "0 < real D" using D by simp
  have q1: "real Q * real D \<le> real N * 2 ^ K"
  proof -
    have "Q * D \<le> N * 2 ^ K" by (simp add: Q_def)
    then have "real (Q * D) \<le> real (N * 2 ^ K)" by (rule of_nat_mono)
    then show ?thesis by simp
  qed
  have q2: "real N * 2 ^ K < (real Q + 1) * real D"
  proof -
    have "N * 2 ^ K < (Q + 1) * D"
      using D by (simp add: Q_def dividend_less_times_div mult.commute)
    then have "real (N * 2 ^ K) < real ((Q + 1) * D)" by (simp only: of_nat_less_iff)
    then show ?thesis by (simp add: algebra_simps)
  qed
  have lo: "(2::real) ^ (b - 1) \<le> real N * 2 ^ K / real D"
  proof -
    have "(2::real) ^ (b - 1) \<le> real Q"
      using bb(1) by (metis of_nat_le_iff of_nat_numeral of_nat_power)
    also have "\<dots> \<le> real N * 2 ^ K / real D"
      using q1 dpos by (simp add: field_simps)
    finally show ?thesis .
  qed
  have hi: "real N * 2 ^ K / real D < (2::real) ^ b"
  proof -
    have "real Q + 1 \<le> (2::real) ^ b"
    proof -
      have "Q + 1 \<le> 2 ^ b" using bb(2) by simp
      then have "real (Q + 1) \<le> real (2 ^ b)" by (rule of_nat_mono)
      then show ?thesis by simp
    qed
    moreover have "real N * 2 ^ K / real D < real Q + 1"
      using q2 dpos by (simp add: field_simps)
    ultimately show ?thesis by linarith
  qed
  have il: "ilog2 N D = int b - 1 - int K"
    by (simp add: ilog2_def b_def Q_def K_def)
  have e1: "2 powr real_of_int (ilog2 N D) = (2::real) ^ (b - 1) / 2 ^ K"
  proof -
    have "ilog2 N D = int (b - 1) - int K" using il bpos by simp
    then show ?thesis by (simp only: p2_diff p2_nat)
  qed
  have e2: "2 powr real_of_int (ilog2 N D + 1) = (2::real) ^ b / 2 ^ K"
  proof -
    have "ilog2 N D + 1 = int b - int K" using il by simp
    then show ?thesis by (simp only: p2_diff p2_nat)
  qed
  have kpos: "0 < (2::real) ^ K" by simp
  show "2 powr real_of_int (ilog2 N D) \<le> real N / real D"
    unfolding e1 using lo kpos by (simp add: field_simps)
  show "real N / real D < 2 powr real_of_int (ilog2 N D + 1)"
    unfolding e2 using hi kpos by (simp add: field_simps)
qed

lemma decode_fields:
  assumes f: "f < 2 ^ fracw F" and B: "B < 2 ^ expw F"
  shows "decode F (sign_bits F s + (B * 2 ^ fracw F + f)) =
     (if B = 2 ^ expw F - 1 then (if f = 0 then Infinity s else NaN)
      else if B = 0 then Finite s f (emin_q F)
      else Finite s (2 ^ fracw F + f) (int B - 1 + emin_q F))"
proof -
  let ?w = "B * 2 ^ fracw F + f"
  have wlt: "?w < 2 ^ (expw F + fracw F)"
  proof -
    have "?w < (B + 1) * 2 ^ fracw F" using f by simp
    also have "\<dots> \<le> 2 ^ expw F * 2 ^ fracw F"
      using B by (intro mult_right_mono) auto
    finally show ?thesis by (simp add: power_add)
  qed
  have s: "odd ((sign_bits F s + ?w) div 2 ^ (expw F + fracw F)) = s"
    using wlt by (cases s) (simp_all add: sign_bits_def)
  have d1: "(sign_bits F s + ?w) div 2 ^ fracw F = (if s then 2 ^ expw F else 0) + B"
    using f by (simp add: sign_bits_def power_add)
  have be: "((sign_bits F s + ?w) div 2 ^ fracw F) mod 2 ^ expw F = B"
    unfolding d1 using B by simp
  have fr: "(sign_bits F s + ?w) mod 2 ^ fracw F = f"
    using f by (simp add: sign_bits_def power_add)
  show ?thesis
    unfolding decode_def Let_def s be fr by simp
qed

lemma p2_mono: "a \<le> b \<Longrightarrow> 2 powr real_of_int a \<le> (2::real) powr real_of_int b"
  by (simp add: powr_mono)

lemma nat_le_of_real_lt:
  assumes "real n < real m + 1"
  shows "n \<le> m"
proof -
  have "real n < real (m + 1)" using assms by simp
  then have "n < m + 1" by (simp only: of_nat_less_iff)
  then show ?thesis by simp
qed

lemma round_mag_value:
  assumes wf: "wf_format F" and N: "0 < N" and D: "0 < D"
    and fin: "round_mag F N D E < inf_bits F"
  shows "\<exists>m e. decode F (sign_bits F s + round_mag F N D E) = Finite s m e
      \<and> \<bar>real m * 2 powr real_of_int e - real N / real D * 2 powr real_of_int E\<bar>
          \<le> 2 powr real_of_int (- int (fracw F) - 1) * (real N / real D * 2 powr real_of_int E)
            + 2 powr real_of_int (emin_q F - 1)"
proof -
  let ?P = "\<lambda>x::int. (2::real) powr real_of_int x"
  let ?fw = "fracw F"
  define L where "L = ilog2 N D"
  define qe where "qe = max (L + E - int ?fw) (emin_q F)"
  define k where "k = nat (qe - emin_q F)"
  define n where "n = (if qe \<le> E then rne (N * 2 ^ nat (E - qe)) D else rne N (D * 2 ^ nat (qe - E)))"
  define q where "q = real N / real D"
  define t where "t = q * ?P (E - qe)"
  define r where "r = q * ?P E"
  have qpos: "0 < q" using N D by (simp add: q_def)
  have Lb: "?P L \<le> q" "q < ?P (L + 1)"
    using ilog2_bounds [OF N D] by (simp_all add: L_def q_def)
  have qe_ge: "emin_q F \<le> qe" "L + E - int ?fw \<le> qe" by (simp_all add: qe_def)
  have k_eq: "int k = qe - emin_q F" using qe_ge(1) by (simp add: k_def)
  have rm: "round_mag F N D E = min (k * 2 ^ ?fw + n) (inf_bits F)"
    by (simp add: round_mag_def Let_def L_def qe_def k_def n_def)
  with fin have w_lt: "k * 2 ^ ?fw + n < inf_bits F" and rm': "round_mag F N D E = k * 2 ^ ?fw + n"
    by (simp_all add: min_def split: if_splits)
  \<comment> \<open>the rounding step\<close>
  have nt: "\<bar>real n - t\<bar> \<le> 1 / 2"
  proof (cases "qe \<le> E")
    case True
    then have n1: "n = rne (N * 2 ^ nat (E - qe)) D" by (simp add: n_def)
    have "?P (E - qe) = 2 ^ nat (E - qe)"
      using True p2_nat [of "nat (E - qe)"] by simp
    then have "t = real (N * 2 ^ nat (E - qe)) / real D"
      by (simp add: t_def q_def)
    then show ?thesis using rne_error [OF D, of "N * 2 ^ nat (E - qe)"] n1 by simp
  next
    case False
    then have n1: "n = rne N (D * 2 ^ nat (qe - E))" by (simp add: n_def)
    have "E - qe = 0 - int (nat (qe - E))" using False by simp
    then have "?P (E - qe) = 1 / 2 ^ nat (qe - E)"
      by (simp only: p2_diff p2_nat) simp
    then have "t = real N / real (D * 2 ^ nat (qe - E))"
      by (simp add: t_def q_def)
    moreover have "0 < D * 2 ^ nat (qe - E)" using D by simp
    ultimately show ?thesis using rne_error [of "D * 2 ^ nat (qe - E)" N] n1 by simp
  qed
  have t_hi: "t < 2 ^ (?fw + 1)"
  proof -
    have "t < ?P (L + 1) * ?P (E - qe)"
      unfolding t_def using Lb(2) by (intro mult_strict_right_mono) auto
    also have "\<dots> = ?P (L + 1 + (E - qe))" by (simp only: p2_add)
    also have "\<dots> \<le> ?P (int (?fw + 1))" using qe_ge(2) by (intro p2_mono) simp
    also have "\<dots> = 2 ^ (?fw + 1)" by (rule p2_nat)
    finally show ?thesis .
  qed
  have n_hi: "n \<le> 2 ^ (?fw + 1)"
  proof (rule nat_le_of_real_lt)
    have "real n \<le> t + 1 / 2" using nt by linarith
    then show "real n < real (2 ^ (?fw + 1)) + 1" using t_hi by simp
  qed
  have n_lo: "2 ^ ?fw \<le> n" if "emin_q F < qe"
  proof -
    from that have qe_eq: "qe = L + E - int ?fw" by (simp add: qe_def max_def split: if_splits)
    have "?P (int ?fw) = ?P (L + (E - qe))" using qe_eq by simp
    also have "\<dots> = ?P L * ?P (E - qe)" by (simp only: p2_add)
    also have "\<dots> \<le> t" unfolding t_def using Lb(1) by (intro mult_right_mono) auto
    finally have "2 ^ ?fw \<le> t" by (simp only: p2_nat)
    moreover have "t \<le> real n + 1 / 2" using nt by linarith
    ultimately have "(2::real) ^ ?fw < real n + 1" by linarith
    then have "real (2 ^ ?fw) < real n + 1" by simp
    then show ?thesis by (rule nat_le_of_real_lt)
  qed
  have ew2: "2 \<le> (2::nat) ^ expw F"
    using wf self_le_power [of 2 "expw F"] by (simp add: wf_format_def)
  \<comment> \<open>decoding the result\<close>
  have dec: "\<exists>m e. decode F (sign_bits F s + (k * 2 ^ ?fw + n)) = Finite s m e
      \<and> real m * ?P e = real n * ?P qe"
  proof -
    consider (sub) "n < 2 ^ ?fw" | (norm) "2 ^ ?fw \<le> n" "n < 2 ^ (?fw + 1)" | (carry) "n = 2 ^ (?fw + 1)"
      using n_hi by linarith
    then show ?thesis
    proof cases
      case sub
      then have "\<not> emin_q F < qe" using n_lo by fastforce
      then have qe0: "qe = emin_q F" and k0: "k = 0" using qe_ge(1) by (simp_all add: k_def)
      have "decode F (sign_bits F s + (0 * 2 ^ ?fw + n)) = Finite s n (emin_q F)"
        using decode_fields [OF sub, of 0 s] ew2 by simp
      then have "decode F (sign_bits F s + (k * 2 ^ ?fw + n)) = Finite s n qe"
        by (simp only: k0 qe0)
      then show ?thesis by blast
    next
      case norm
      define f where "f = n - 2 ^ ?fw"
      have f: "f < 2 ^ ?fw" "n = 2 ^ ?fw + f" using norm by (simp_all add: f_def)
      have w: "k * 2 ^ ?fw + n = (k + 1) * 2 ^ ?fw + f" using f(2) by (simp add: algebra_simps)
      have "(k + 1) * 2 ^ ?fw \<le> k * 2 ^ ?fw + n" using w by simp
      also have "\<dots> < (2 ^ expw F - 1) * 2 ^ ?fw" using w_lt by (simp add: inf_bits_def)
      finally have "(k + 1) * 2 ^ ?fw < (2 ^ expw F - 1) * 2 ^ ?fw" .
      then have B: "k + 1 < 2 ^ expw F - 1" by (simp only: mult_less_cancel2)
      then have B2: "k + 1 < 2 ^ expw F" by simp
      have "decode F (sign_bits F s + ((k + 1) * 2 ^ ?fw + f))
          = Finite s (2 ^ ?fw + f) (int (k + 1) - 1 + emin_q F)"
        using decode_fields [OF f(1) B2, of s] B by simp
      moreover have "int (k + 1) - 1 + emin_q F = qe" using k_eq by simp
      ultimately have "decode F (sign_bits F s + (k * 2 ^ ?fw + n)) = Finite s n qe"
        by (simp only: w f(2) [symmetric])
      then show ?thesis by blast
    next
      case carry
      have w: "k * 2 ^ ?fw + n = (k + 2) * 2 ^ ?fw + 0" using carry by (simp add: algebra_simps)
      have "(k + 2) * 2 ^ ?fw < (2 ^ expw F - 1) * 2 ^ ?fw" using w_lt w by (simp add: inf_bits_def)
      then have B: "k + 2 < 2 ^ expw F - 1" by (simp only: mult_less_cancel2)
      then have B2: "k + 2 < 2 ^ expw F" by simp
      have z: "(0::nat) < 2 ^ ?fw" by simp
      have "decode F (sign_bits F s + ((k + 2) * 2 ^ ?fw + 0))
          = Finite s (2 ^ ?fw + 0) (int (k + 2) - 1 + emin_q F)"
        using decode_fields [OF z B2, of s] B by simp
      moreover have "int (k + 2) - 1 + emin_q F = qe + 1" using k_eq by simp
      ultimately have "decode F (sign_bits F s + (k * 2 ^ ?fw + n)) = Finite s (2 ^ ?fw + 0) (qe + 1)"
        by (simp only: w)
      moreover have "real (2 ^ ?fw + 0) * ?P (qe + 1) = real n * ?P qe"
        by (simp add: carry powr_add)
      ultimately show ?thesis by blast
    qed
  qed
  \<comment> \<open>the error\<close>
  have r_t: "r = t * ?P qe"
  proof -
    have "?P E = ?P ((E - qe) + qe)" by simp
    also have "\<dots> = ?P (E - qe) * ?P qe" by (simp only: p2_add)
    finally show ?thesis by (simp add: r_def t_def)
  qed
  have err1: "\<bar>real n * ?P qe - r\<bar> \<le> ?P (qe - 1)"
  proof -
    have "\<bar>real n * ?P qe - r\<bar> = \<bar>real n - t\<bar> * ?P qe"
      unfolding r_t by (simp add: abs_mult left_diff_distrib [symmetric])
    also have "\<dots> \<le> 1 / 2 * ?P qe" using nt by (intro mult_right_mono) auto
    also have "\<dots> = ?P (qe - 1)" by (simp add: powr_diff)
    finally show ?thesis .
  qed
  have rpos: "0 \<le> r" using qpos by (simp add: r_def)
  have err2: "?P (qe - 1) \<le> ?P (- int ?fw - 1) * r + ?P (emin_q F - 1)"
  proof (cases "emin_q F < qe")
    case True
    then have qe_eq: "qe = L + E - int ?fw" by (simp add: qe_def max_def split: if_splits)
    have "qe - 1 = (- int ?fw - 1) + (L + E)" using qe_eq by simp
    then have "?P (qe - 1) = ?P ((- int ?fw - 1) + (L + E))" by (simp only:)
    also have "\<dots> = ?P (- int ?fw - 1) * (?P L * ?P E)" by (simp only: p2_add)
    also have "\<dots> \<le> ?P (- int ?fw - 1) * r"
      unfolding r_def using Lb(1) by (intro mult_left_mono mult_right_mono) auto
    finally show ?thesis by (simp add: add_increasing2)
  next
    case False
    then have "qe = emin_q F" using qe_ge(1) by simp
    moreover have "0 \<le> ?P (- int ?fw - 1) * r" using rpos by simp
    ultimately show ?thesis by simp
  qed
  from dec obtain m e where me: "decode F (sign_bits F s + (k * 2 ^ ?fw + n)) = Finite s m e"
    "real m * ?P e = real n * ?P qe" by blast
  have "\<bar>real m * ?P e - r\<bar> \<le> ?P (- int ?fw - 1) * r + ?P (emin_q F - 1)"
    using err1 err2 me(2) by linarith
  then show ?thesis using me(1) rm' unfolding r_def q_def by auto
qed

lemma round_mag_le: "round_mag F N D E \<le> inf_bits F"
  by (simp add: round_mag_def Let_def)

lemma pow_expw_ge2: "wf_format F \<Longrightarrow> 2 \<le> (2::nat) ^ expw F"
  using self_le_power [of 2 "expw F"] by (simp add: wf_format_def)

lemma decode_inf: 
  assumes "wf_format F"
  shows "decode F (sign_bits F s + inf_bits F) = Infinity s"
proof -
  have z: "(0::nat) < 2 ^ fracw F" by simp
  have B: "2 ^ expw F - 1 < (2::nat) ^ expw F" by simp
  show ?thesis
    using decode_fields [OF z B, of s] by (simp add: inf_bits_def)
qed

lemma decode_nan:
  assumes "wf_format F"
  shows "decode F (nan_bits F) = NaN"
proof -
  have f: "(2::nat) ^ (fracw F - 1) < 2 ^ fracw F"
    using assms by (simp add: wf_format_def)
  have B: "2 ^ expw F - 1 < (2::nat) ^ expw F" by simp
  show ?thesis
    using decode_fields [OF f B, of False] by (simp add: nan_bits_def inf_bits_def sign_bits_def)
qed

lemma decode_zero:
  assumes "wf_format F"
  shows "decode F (sign_bits F s) = Finite s 0 (emin_q F)"
proof -
  have z: "(0::nat) < 2 ^ fracw F" by simp
  have B: "0 < (2::nat) ^ expw F" by simp
  show ?thesis
    using decode_fields [OF z B, of s] pow_expw_ge2 [OF assms] by simp
qed

lemma inf_bits_lt: "wf_format F \<Longrightarrow> inf_bits F + 2 ^ (fracw F - 1) < 2 ^ (expw F + fracw F)"
proof -
  assume wf: "wf_format F"
  have f: "(2::nat) ^ (fracw F - 1) < 2 ^ fracw F"
    using wf by (simp add: wf_format_def)
  have "inf_bits F + 2 ^ (fracw F - 1) < (2 ^ expw F - 1) * 2 ^ fracw F + 1 * 2 ^ fracw F"
    using f by (simp add: inf_bits_def)
  also have "\<dots> = (2 ^ expw F - 1 + 1) * 2 ^ fracw F" by (simp only: add_mult_distrib)
  also have "\<dots> = 2 ^ (expw F + fracw F)" by (simp add: power_add)
  finally show ?thesis .
qed

lemma sign_bits_le: "sign_bits F s \<le> 2 ^ (expw F + fracw F)"
  by (simp add: sign_bits_def)

lemma round_fp_lt:
  assumes "wf_format F"
  shows "round_fp F s N D E < 2 ^ Suc (expw F + fracw F)"
proof -
  have "(if N = 0 then 0 else round_mag F N D E) \<le> inf_bits F"
    using round_mag_le by simp
  moreover have c: "(2::nat) ^ Suc (expw F + fracw F) = 2 * 2 ^ (expw F + fracw F)" by simp
  ultimately show ?thesis
    using sign_bits_le [of F s] inf_bits_lt [OF assms] unfolding round_fp_def by linarith
qed

lemma special_lt:
  assumes "wf_format F"
  shows "nan_bits F < 2 ^ Suc (expw F + fracw F)"
    and "sign_bits F s + inf_bits F < 2 ^ Suc (expw F + fracw F)"
    and "sign_bits F s < 2 ^ Suc (expw F + fracw F)"
proof -
  have a: "inf_bits F + 2 ^ (fracw F - 1) < 2 ^ (expw F + fracw F)" by (rule inf_bits_lt [OF assms])
  have b: "sign_bits F s \<le> 2 ^ (expw F + fracw F)" by (rule sign_bits_le)
  have c: "(2::nat) ^ Suc (expw F + fracw F) = 2 * 2 ^ (expw F + fracw F)" by simp
  have d: "0 < (2::nat) ^ (expw F + fracw F)" by simp
  show "nan_bits F < 2 ^ Suc (expw F + fracw F)" unfolding nan_bits_def using a c by linarith
  show "sign_bits F s + inf_bits F < 2 ^ Suc (expw F + fracw F)" using a b c by linarith
  show "sign_bits F s < 2 ^ Suc (expw F + fracw F)" using b c d by linarith
qed

lemma mul_bits_lt:
  assumes "wf_format F"
  shows "mul_bits F a b < 2 ^ Suc (expw F + fracw F)"
  unfolding mul_bits_def
  by (cases "decode F a"; cases "decode F b")
     (auto simp add: special_lt [OF assms] round_fp_lt [OF assms] simp del: power_Suc)

lemma valof_fp_mult:
  "valof_fp (Finite s1 m1 e1) * valof_fp (Finite s2 m2 e2)
     = (if s1 \<noteq> s2 then - 1 else 1) * (real (m1 * m2) / real (1::nat) * 2 powr real_of_int (e1 + e2))"
  by (simp add: powr_add)

lemma mul_bits_error:
  assumes wf: "wf_format F" and fin: "is_finite_fp (decode F (mul_bits F a b))"
  shows "is_finite_fp (decode F a) \<and> is_finite_fp (decode F b)
     \<and> \<bar>valof_fp (decode F (mul_bits F a b)) - valof_fp (decode F a) * valof_fp (decode F b)\<bar>
         \<le> 2 powr real_of_int (- int (fracw F) - 1) * \<bar>valof_fp (decode F a) * valof_fp (decode F b)\<bar>
           + 2 powr real_of_int (emin_q F - 1)"
proof (cases "decode F a")
  case NaN
  with fin show ?thesis by (simp add: mul_bits_def decode_nan [OF wf])
next
  case (Infinity s1)
  with fin show ?thesis
    by (cases "decode F b")
       (auto simp add: mul_bits_def decode_nan [OF wf] decode_inf [OF wf] split: if_splits)
next
  case A: (Finite s1 m1 e1)
  show ?thesis
  proof (cases "decode F b")
    case NaN
    with fin A show ?thesis by (simp add: mul_bits_def decode_nan [OF wf])
  next
    case (Infinity s2)
    with fin A show ?thesis
      by (auto simp add: mul_bits_def decode_nan [OF wf] decode_inf [OF wf] split: if_splits)
  next
    case B: (Finite s2 m2 e2)
    define s where "s = (s1 \<noteq> s2)"
    define N where "N = m1 * m2"
    define E where "E = e1 + e2"
    define r where "r = real N / real (1::nat) * 2 powr real_of_int E"
    have mb: "mul_bits F a b = round_fp F s N 1 E"
      using A B by (simp add: mul_bits_def s_def N_def E_def)
    have prod: "valof_fp (decode F a) * valof_fp (decode F b) = (if s then - 1 else 1) * r"
      unfolding A B valof_fp_mult s_def N_def E_def r_def by simp
    have rpos: "0 \<le> r" by (simp add: r_def)
    have aprod: "\<bar>valof_fp (decode F a) * valof_fp (decode F b)\<bar> = r"
      unfolding prod using rpos by simp
    show ?thesis
    proof (cases "N = 0")
      case True
      then have "decode F (mul_bits F a b) = Finite s 0 (emin_q F)"
        using mb decode_zero [OF wf] by (simp add: round_fp_def)
      then have v0: "valof_fp (decode F (mul_bits F a b)) = 0" by simp
      have "r = 0" using True by (simp add: r_def)
      then have p0: "valof_fp (decode F a) * valof_fp (decode F b) = 0" using prod by simp
      have fa: "is_finite_fp (decode F a)" "is_finite_fp (decode F b)" using A B by simp_all
      show ?thesis unfolding v0 p0 using fa by simp
    next
      case False
      then have Npos: "0 < N" by simp
      have mb2: "mul_bits F a b = sign_bits F s + round_mag F N 1 E"
        using mb False by (simp add: round_fp_def)
      have "round_mag F N 1 E \<noteq> inf_bits F"
        using fin mb2 decode_inf [OF wf, of s] by auto
      then have lt: "round_mag F N 1 E < inf_bits F"
        using round_mag_le [of F N 1 E] by simp
      have one: "0 < (1::nat)" by simp
      from round_mag_value [OF wf Npos one lt, of s]
      obtain m e where me: "decode F (sign_bits F s + round_mag F N 1 E) = Finite s m e"
        "\<bar>real m * 2 powr real_of_int e - r\<bar>
           \<le> 2 powr real_of_int (- int (fracw F) - 1) * r + 2 powr real_of_int (emin_q F - 1)"
        unfolding r_def by blast
      have v: "valof_fp (decode F (mul_bits F a b)) = (if s then - 1 else 1) * (real m * 2 powr real_of_int e)"
        unfolding mb2 me(1) by simp
      have "\<bar>valof_fp (decode F (mul_bits F a b)) - valof_fp (decode F a) * valof_fp (decode F b)\<bar>
          = \<bar>real m * 2 powr real_of_int e - r\<bar>"
        unfolding v prod by (cases s) simp_all
      moreover have "is_finite_fp (decode F a)" "is_finite_fp (decode F b)" using A B by simp_all
      ultimately show ?thesis using me(2) aprod by simp
    qed
  qed
qed

lemma round_trip_arith:
  fixes X Y Z V1 V2 u a :: real
  assumes u: "0 \<le> u" "u \<le> 1 / 4" and a: "0 \<le> a"
    and V: "0 \<le> V1" "0 \<le> V2" "V2 \<le> 64" and P: "\<bar>V1 * V2 - 1\<bar> \<le> 2 * u"
    and Y: "\<bar>Y - X * V1\<bar> \<le> u * \<bar>X * V1\<bar> + a"
    and Z: "\<bar>Z - Y * V2\<bar> \<le> u * \<bar>Y * V2\<bar> + a"
  shows "\<bar>Z - X\<bar> \<le> 8 * u * \<bar>X\<bar> + 256 * a"
proof -
  define A where "A = \<bar>X\<bar>"
  define T where "T = A * (V1 * V2)"
  define uA where "uA = u * A"
  define uT where "uT = u * T"
  define uuT where "uuT = u * uT"
  define aV where "aV = a * V2"
  define uaV where "uaV = u * aV"
  have A0: "0 \<le> A" by (simp add: A_def)
  have P2: "V1 * V2 \<le> 3 / 2" "0 \<le> V1 * V2" using P u V by (auto intro: mult_nonneg_nonneg)
  have T0: "0 \<le> T" using A0 P2 by (simp add: T_def)
  have T1: "T \<le> 3 / 2 * A"
    using mult_left_mono [OF P2(1) A0] by (simp add: T_def)
  have uT0: "0 \<le> uT" using u T0 by (simp add: uT_def)
  have uT1: "uT \<le> 3 / 2 * uA"
    using mult_left_mono [OF T1 u(1)] by (simp add: uT_def uA_def)
  have uuT1: "uuT \<le> 1 / 4 * uT"
    using mult_right_mono [OF u(2) uT0] by (simp add: uuT_def)
  have aV0: "0 \<le> aV" using a V by (simp add: aV_def)
  have aV1: "aV \<le> 64 * a"
    using mult_left_mono [OF V(3) a] by (simp add: aV_def)
  have uaV1: "uaV \<le> 1 / 4 * aV"
    using mult_right_mono [OF u(2) aV0] by (simp add: uaV_def)
  have XV: "\<bar>X * V1\<bar> = A * V1" using V by (simp add: abs_mult A_def)
  have h1: "\<bar>Y - X * V1\<bar> \<le> u * (A * V1) + a" using Y XV by simp
  have h2: "\<bar>Y\<bar> \<le> A * V1 + u * (A * V1) + a"
  proof -
    have "\<bar>Y\<bar> \<le> \<bar>X * V1\<bar> + \<bar>Y - X * V1\<bar>" by linarith
    then show ?thesis using h1 XV by linarith
  qed
  have h3: "\<bar>Y * V2\<bar> \<le> T + uT + aV"
  proof -
    have "\<bar>Y * V2\<bar> = \<bar>Y\<bar> * V2" using V by (simp add: abs_mult)
    also have "\<dots> \<le> (A * V1 + u * (A * V1) + a) * V2"
      using h2 V(2) by (rule mult_right_mono)
    also have "\<dots> = T + uT + aV"
      by (simp add: T_def uT_def aV_def algebra_simps)
    finally show ?thesis .
  qed
  have h4: "\<bar>Z - Y * V2\<bar> \<le> uT + uuT + uaV + a"
  proof -
    have "u * \<bar>Y * V2\<bar> \<le> u * (T + uT + aV)" using h3 u(1) by (rule mult_left_mono)
    also have "\<dots> = uT + uuT + uaV" by (simp add: uT_def uuT_def uaV_def algebra_simps)
    finally show ?thesis using Z by linarith
  qed
  have h5: "\<bar>Y * V2 - X * (V1 * V2)\<bar> \<le> uT + aV"
  proof -
    have "Y * V2 - X * (V1 * V2) = (Y - X * V1) * V2" by (simp add: algebra_simps)
    then have "\<bar>Y * V2 - X * (V1 * V2)\<bar> = \<bar>Y - X * V1\<bar> * \<bar>V2\<bar>" by (simp only: abs_mult)
    also have "\<dots> = \<bar>Y - X * V1\<bar> * V2" using V(2) by simp
    also have "\<dots> \<le> (u * (A * V1) + a) * V2" using h1 V(2) by (rule mult_right_mono)
    also have "\<dots> = uT + aV" by (simp add: T_def uT_def aV_def algebra_simps)
    finally show ?thesis .
  qed
  have h6: "\<bar>X * (V1 * V2) - X\<bar> \<le> 2 * uA"
  proof -
    have "X * (V1 * V2) - X = X * (V1 * V2 - 1)" by (simp add: algebra_simps)
    then have "\<bar>X * (V1 * V2) - X\<bar> = A * \<bar>V1 * V2 - 1\<bar>" by (simp only: abs_mult A_def)
    also have "\<dots> \<le> A * (2 * u)" using P A0 by (rule mult_left_mono)
    also have "\<dots> = 2 * uA" by (simp add: uA_def)
    finally show ?thesis .
  qed
  have "\<bar>Z - X\<bar> \<le> \<bar>Z - Y * V2\<bar> + \<bar>Y * V2 - X * (V1 * V2)\<bar> + \<bar>X * (V1 * V2) - X\<bar>"
    by linarith
  then have "\<bar>Z - X\<bar> \<le> 8 * uA + 256 * a"
    using h4 h5 h6 uT1 uuT1 uaV1 aV1 uT0 aV0 a by linarith
  then show ?thesis by (simp add: uA_def A_def)
qed

lemma unat_fmul:
  fixes x y :: "'a::len word"
  assumes "format_of TYPE('a) = F" "wf_format F" "LENGTH('a) = Suc (expw F + fracw F)"
  shows "unat (fmul x y) = mul_bits F (unat x) (unat y)"
proof -
  have "mul_bits F (unat x) (unat y) < 2 ^ LENGTH('a)"
    using mul_bits_lt [OF assms(2)] assms(3) by simp
  then show ?thesis
    by (simp add: fmul_def assms(1) unat_of_nat)
qed

lemma fmul_error:
  fixes x y :: "'a::len word"
  assumes F: "format_of TYPE('a) = F" "wf_format F" "LENGTH('a) = Suc (expw F + fracw F)"
    and fin: "is_finite (fmul x y)"
  shows "is_finite x \<and> is_finite y
     \<and> \<bar>valof (fmul x y) - valof x * valof y\<bar>
         \<le> 2 powr real_of_int (- int (fracw F) - 1) * \<bar>valof x * valof y\<bar>
           + 2 powr real_of_int (emin_q F - 1)"
  using mul_bits_error [OF F(2), of "unat x" "unat y"] fin
  unfolding is_finite_def valof_def unat_fmul [OF F] F(1) by simp

lemma round_trip_generic:
  fixes x c1 c2 :: "'a::len word"
  assumes F: "format_of TYPE('a) = F" "wf_format F" "LENGTH('a) = Suc (expw F + fracw F)"
    and c: "0 \<le> valof c1" "0 \<le> valof c2" "valof c2 \<le> 64"
      "\<bar>valof c1 * valof c2 - 1\<bar> \<le> 2 * 2 powr real_of_int (- int (fracw F) - 1)"
    and fin: "is_finite (fmul (fmul x c1) c2)"
  shows "is_finite x \<and> \<bar>valof (fmul (fmul x c1) c2) - valof x\<bar>
      \<le> 8 * 2 powr real_of_int (- int (fracw F) - 1) * \<bar>valof x\<bar>
        + 256 * 2 powr real_of_int (emin_q F - 1)"
proof -
  let ?u = "2 powr real_of_int (- int (fracw F) - 1)"
  let ?a = "2 powr real_of_int (emin_q F - 1)"
  from fmul_error [OF F fin]
  have fy: "is_finite (fmul x c1)"
    and Z: "\<bar>valof (fmul (fmul x c1) c2) - valof (fmul x c1) * valof c2\<bar>
        \<le> ?u * \<bar>valof (fmul x c1) * valof c2\<bar> + ?a" by simp_all
  from fmul_error [OF F fy]
  have fx: "is_finite x"
    and Y: "\<bar>valof (fmul x c1) - valof x * valof c1\<bar> \<le> ?u * \<bar>valof x * valof c1\<bar> + ?a"
    by simp_all
  have "- int (fracw F) - 1 \<le> - 2" using F(2) by (simp add: wf_format_def)
  then have "?u \<le> 2 powr real_of_int (- 2)" by (rule p2_mono)
  also have "\<dots> = 1 / 4" by (simp add: powr_minus_divide)
  finally have u4: "?u \<le> 1 / 4" .
  have u0: "0 \<le> ?u" and a0: "0 \<le> ?a" by simp_all
  from round_trip_arith [OF u0 u4 a0 c(1) c(2) c(3) c(4) Y Z] fx show ?thesis by simp
qed

end
